theory Spec2Isabelle
  imports Main "HOL-Library.AList"
begin

section \<open>JavaScript values\<close>

text \<open>
  The state of a container, the stored records and everything \<^verbatim>\<open>JSON.parse\<close> can
  return are JavaScript values. Numbers are integers here (stored versions and the
  counters of the examples are), objects are property lists in insertion order, and the
  values carry no functions, so \<^verbatim>\<open>typeof updateAction === "function"\<close> never holds for
  them. All theorems below read objects through \<open>map_of\<close>, so the position JavaScript
  gives to integer-like keys does not matter.
\<close>

datatype jsval =
    Undefined
  | Null
  | Bool bool
  | Num int
  | Str string
  | Arr "jsval list"
  | Obj "(string \<times> jsval) list"

text \<open>\<^verbatim>\<open>!data\<close>: the falsy values.\<close>

fun falsy :: "jsval \<Rightarrow> bool" where
  "falsy Undefined = True"
| "falsy Null = True"
| "falsy (Bool b) = (\<not> b)"
| "falsy (Num n) = (n = 0)"
| "falsy (Str s) = (s = [])"
| "falsy (Arr xs) = False"
| "falsy (Obj ps) = False"

text \<open>
  \<^verbatim>\<open>const { value, version } = data\<close>: reading a property of a truthy value. Only objects
  carry \<^verbatim>\<open>value\<close> or \<^verbatim>\<open>version\<close>; on a number, a string, a boolean or an array both are
  \<^verbatim>\<open>undefined\<close>.
\<close>

fun get_prop :: "jsval \<Rightarrow> string \<Rightarrow> jsval" where
  "get_prop (Obj ps) k = (case map_of ps k of Some v \<Rightarrow> v | None \<Rightarrow> Undefined)"
| "get_prop v k = Undefined"

text \<open>\<^verbatim>\<open>x ?? null\<close>\<close>

fun nullish_null :: "jsval \<Rightarrow> jsval" where
  "nullish_null Undefined = Null"
| "nullish_null v = v"

text \<open>Array indices as property keys: the decimal numeral of the index.\<close>

fun decimal :: "nat \<Rightarrow> string" where
  "decimal n =
     (if n < 10 then [char_of (48 + n)]
      else decimal (n div 10) @ [char_of (48 + n mod 10)])"

text \<open>
  The own enumerable properties an object spread \<^verbatim>\<open>{...x}\<close> copies: those of an object,
  the indexed elements of an array, the indexed characters of a string, and nothing for
  \<^verbatim>\<open>undefined\<close>, \<^verbatim>\<open>null\<close>, booleans and numbers.
\<close>

fun own_props :: "jsval \<Rightarrow> (string \<times> jsval) list" where
  "own_props (Obj ps) = ps"
| "own_props (Arr xs) = zip (map decimal [0..<length xs]) xs"
| "own_props (Str s) = zip (map decimal [0..<length s]) (map (\<lambda>c. Str [c]) s)"
| "own_props v = []"

text \<open>\<^verbatim>\<open>{ ...prev, ...cur }\<close> builds a fresh object: the properties of \<open>prev\<close>, then those
  of \<open>cur\<close>, a key that is already there keeping its place and taking the new value.\<close>

definition spread :: "(string \<times> jsval) list \<Rightarrow> jsval \<Rightarrow> (string \<times> jsval) list" where
  "spread acc x = fold (\<lambda>(k, v). AList.update k v) (own_props x) acc"

text \<open>\<^verbatim>\<open>shallowMerge = (...objects) => objects.reduce((prev, cur) => ({ ...prev, ...cur }), {})\<close>\<close>

definition shallowMerge :: "jsval list \<Rightarrow> jsval" where
  "shallowMerge objects = foldl (\<lambda>prev cur. Obj (spread (spread [] prev) cur)) (Obj []) objects"

section \<open>Storage backends and the JSON storage adapter\<close>

text \<open>
  A call into a backend returns a plain value or a promise. A promise is modelled by the
  way it will settle; when it settles is an event of the run (see \<open>step\<close> below).
  The backend contract is \<^verbatim>\<open>getItem: (name) => Promise<string | null> | string | null\<close>,
  \<^verbatim>\<open>setItem: (name, value) => Promise<void> | void\<close>,
  \<^verbatim>\<open>removeItem: (name) => Promise<void> | void\<close>; a backend that throws synchronously
  from these calls is outside that contract and outside this model.
\<close>

datatype 'a outcome = Fulfils 'a | Rejects

datatype 'a returned = Plain 'a | Promise "'a outcome"

record backend =
  backend_getItem :: "string \<Rightarrow> string option returned"
  backend_setItem :: "string \<Rightarrow> string \<Rightarrow> unit returned"
  backend_removeItem :: "string \<Rightarrow> unit returned"

text \<open>\<^verbatim>\<open>StorageProvider = ActualStorage | (() => ActualStorage)\<close>; calling the function may
  throw (\<open>None\<close>), as \<^verbatim>\<open>() => localStorage\<close> does where there is no \<^verbatim>\<open>localStorage\<close>.\<close>

datatype provider = Instance backend | Factory "backend option"

text \<open>The host environment: \<^verbatim>\<open>JSON.parse\<close> (\<open>None\<close> when it throws),
  \<^verbatim>\<open>JSON.stringify\<close> on the records the handler stores (it throws on cyclic structures
  and on \<^verbatim>\<open>BigInt\<close>, which the values here do not contain, so it is total) and the global
  \<^verbatim>\<open>localStorage\<close> (\<open>None\<close> when reading it throws).\<close>

record env =
  JSON_parse :: "string \<Rightarrow> jsval option"
  JSON_stringify :: "jsval \<Rightarrow> string"
  localStorage :: "backend option"

text \<open>The handler's storage is the sentinel \<^verbatim>\<open>UninitializedStorage\<close> or the object
  \<^verbatim>\<open>jsonPersistStorage\<close> that \<^verbatim>\<open>createJSONStorage\<close> builds around a backend instance.\<close>

datatype storage = UninitializedStorage | JSONStorage backend

definition createJSONStorage :: "provider \<Rightarrow> storage option" where
  "createJSONStorage storageProvider =
     (case storageProvider of
        Instance storageInstance \<Rightarrow> Some (JSONStorage storageInstance)
      | Factory called \<Rightarrow>
          (case called of
             Some storageInstance \<Rightarrow> Some (JSONStorage storageInstance)
           | None \<Rightarrow> None))"

definition parseJSON :: "env \<Rightarrow> string option \<Rightarrow> jsval" where
  "parseJSON E str =
     (case str of
        None \<Rightarrow> Null
      | Some s \<Rightarrow> (case JSON_parse E s of Some v \<Rightarrow> v | None \<Rightarrow> Null))"

text \<open>\<^verbatim>\<open>getItem\<close> of the storage: the sentinel answers \<^verbatim>\<open>null\<close>; the adapter parses at
  once when the backend answered at once, and after the read when it returned a promise
  (\<^verbatim>\<open>runImmediately(async () => parseJSON(await item))\<close>, which rejects when \<open>item\<close> does).\<close>

fun storage_getItem :: "env \<Rightarrow> storage \<Rightarrow> string \<Rightarrow> jsval returned" where
  "storage_getItem E UninitializedStorage k = Plain Null"
| "storage_getItem E (JSONStorage storageInstance) k =
     (case backend_getItem storageInstance k of
        Promise item \<Rightarrow>
          Promise (case item of Fulfils s \<Rightarrow> Fulfils (parseJSON E s) | Rejects \<Rightarrow> Rejects)
      | Plain item \<Rightarrow> Plain (parseJSON E item))"

text \<open>\<^verbatim>\<open>setItem\<close> of the storage. The sentinel logs a warning, returns \<^verbatim>\<open>undefined\<close> and
  reaches no backend. The adapter's \<^verbatim>\<open>setItem\<close> is \<^verbatim>\<open>async (key, value) => { const s =
  JSON.stringify(value); const r = storageInstance.setItem(key, s); if (isPromise(r))
  await r; }\<close>: the backend is called at once with the key and the string, and the
  result is a promise. The first component is the call that reached a backend.\<close>

fun storage_setItem ::
  "env \<Rightarrow> storage \<Rightarrow> string \<Rightarrow> jsval \<Rightarrow> (string \<times> string) option \<times> unit returned" where
  "storage_setItem E UninitializedStorage k v = (None, Plain ())"
| "storage_setItem E (JSONStorage storageInstance) k v =
     (let stringifiedValue = JSON_stringify E v
      in (Some (k, stringifiedValue),
          case backend_setItem storageInstance k stringifiedValue of
            Promise setItemResult \<Rightarrow> Promise setItemResult
          | Plain u \<Rightarrow> Promise (Fulfils ())))"

text \<open>\<^verbatim>\<open>removeItem: async (key) => { const r = storageInstance.removeItem(key);
  if (isPromise(r)) await r; }\<close>: an \<^verbatim>\<open>async\<close> function, so its result is a promise
  whatever the backend returned. The sentinel returns \<^verbatim>\<open>undefined\<close>.\<close>

fun storage_removeItem :: "storage \<Rightarrow> string \<Rightarrow> unit returned" where
  "storage_removeItem UninitializedStorage k = Plain ()"
| "storage_removeItem (JSONStorage storageInstance) k =
     (case backend_removeItem storageInstance k of
        Promise removeItemResult \<Rightarrow> Promise removeItemResult
      | Plain u \<Rightarrow> Promise (Fulfils ()))"

section \<open>The container and its persist handler\<close>

text \<open>
  \<^verbatim>\<open>class IgrisMaster\<close>: the current state and the set of listeners, in insertion order.
  A listener is the one the persist handler installs (its body is
  \<^verbatim>\<open>this.setItem(data)\<close>) or a listener of the application, which is taken to observe only
  (it does not call back into the container or the handler while it is being notified):
  \<open>notified\<close> records, in order, every call of a listener with the state it received.
  \<^verbatim>\<open>IgrisMaster.get\<close>, whose first call is one more caller of \<^verbatim>\<open>persist.hydrate()\<close>, is
  covered by the event \<open>CallHydrate\<close> below.
\<close>

datatype listener = PersistListener | UserListener nat

record igrisMaster =
  currentState :: jsval
  listeners :: "listener list"
  notified :: "(listener \<times> jsval) list"

text \<open>The resolved \<^verbatim>\<open>PersistConfig\<close>. \<^verbatim>\<open>migrate\<close> and \<^verbatim>\<open>merge\<close> are optional, and
  the callbacks are taken to return (a callback that throws is not modelled).\<close>

record config =
  debounceTime :: nat
  version :: "int option"
  migrate :: "(jsval \<Rightarrow> jsval \<Rightarrow> jsval) option"
  partial :: "jsval \<Rightarrow> jsval"
  merge :: "(jsval \<Rightarrow> jsval \<Rightarrow> jsval) option"
  storage_cfg :: "provider option"
  skipHydrate :: bool

text \<open>\<^verbatim>\<open>config.version\<close> as a value: a number or \<^verbatim>\<open>undefined\<close>.\<close>

fun version_value :: "int option \<Rightarrow> jsval" where
  "version_value None = Undefined"
| "version_value (Some n) = Num n"

text \<open>
  The method \<^verbatim>\<open>hydrate\<close> of a handler is the prototype method until its first call, which
  replaces it by \<^verbatim>\<open>() => undefined\<close> or by \<^verbatim>\<open>() => hydratePromise\<close>. The promise is
  pending, with the outcome of the storage read it awaits, or fulfilled.
\<close>

datatype promise_state = Pending "jsval outcome" | Fulfilled

datatype hydrate_method = Prototype | ReturnsUndefined | ReturnsPromise promise_state

text \<open>What a call of \<^verbatim>\<open>hydrate()\<close> returns: \<^verbatim>\<open>undefined\<close> or the handler's promise.\<close>

datatype wait_handle = Void | HydratePromise

text \<open>What the handler does, in order; \<open>trace\<close> records it.\<close>

datatype action =
    StorageGetItem string
  | StoreSet jsval
  | Subscribed
  | SetItemCalled jsval
  | StorageSetItem string jsval
  | BackendSetItem string string

text \<open>
  \<^verbatim>\<open>class PersistHandler\<close>. \<open>timeoutId\<close> is the pending timer, with the time it is due and
  the \<open>data\<close> its callback captured; \<open>store\<close> is the container the handler belongs to.
\<close>

record persistHandler =
  key :: string
  timeoutId :: "(nat \<times> jsval) option"
  store :: igrisMaster
  storage :: storage
  config :: config
  hydrate_method :: hydrate_method
  trace :: "action list"

text \<open>The constructor: the defaults, overridden by what \<^verbatim>\<open>persisConfig\<close> gives.\<close>

record persistConfig =
  pc_debounceTime :: "nat option"
  pc_version :: "int option"
  pc_migrate :: "(jsval \<Rightarrow> jsval \<Rightarrow> jsval) option"
  pc_partial :: "(jsval \<Rightarrow> jsval) option"
  pc_merge :: "(jsval \<Rightarrow> jsval \<Rightarrow> jsval) option"
  pc_storage :: "provider option"
  pc_skipHydrate :: "bool option"

definition new_PersistHandler :: "string \<Rightarrow> igrisMaster \<Rightarrow> persistConfig \<Rightarrow> persistHandler" where
  "new_PersistHandler storeName st persisConfig =
     \<lparr> key = storeName,
       timeoutId = None,
       store = st,
       storage = UninitializedStorage,
       config = \<lparr> debounceTime = (case pc_debounceTime persisConfig of Some d \<Rightarrow> d | None \<Rightarrow> 100),
                  version = pc_version persisConfig,
                  migrate = pc_migrate persisConfig,
                  partial = (case pc_partial persisConfig of Some f \<Rightarrow> f | None \<Rightarrow> (\<lambda>data. data)),
                  merge = pc_merge persisConfig,
                  storage_cfg = pc_storage persisConfig,
                  skipHydrate = (case pc_skipHydrate persisConfig of Some b \<Rightarrow> b | None \<Rightarrow> False) \<rparr>,
       hydrate_method = Prototype,
       trace = [] \<rparr>"

definition initializeStorage :: "env \<Rightarrow> persistHandler \<Rightarrow> persistHandler" where
  "initializeStorage E h =
     (let defaultStorage = Factory (localStorage E);
          created = createJSONStorage
            (case storage_cfg (config h) of Some p \<Rightarrow> p | None \<Rightarrow> defaultStorage)
      in case created of Some s \<Rightarrow> h\<lparr>storage := s\<rparr> | None \<Rightarrow> h)"

text \<open>The delay \<^verbatim>\<open>setTimeout(callback, delay)\<close> really waits, in milliseconds: a delay
  greater than \<open>2\<^sup>3\<^sup>1 - 1\<close> or less than 1 is set to 1.\<close>

definition timer_delay :: "nat \<Rightarrow> nat" where
  "timer_delay delay = (if delay < 1 \<or> 2147483647 < delay then 1 else delay)"

text \<open>\<^verbatim>\<open>setItem(data)\<close> at time \<open>now\<close>: \<^verbatim>\<open>clearTimeout\<close> drops the pending timer,
  \<^verbatim>\<open>setTimeout(..., this.config.debounceTime)\<close> installs one, due when its delay has
  passed.\<close>

definition setItem :: "nat \<Rightarrow> jsval \<Rightarrow> persistHandler \<Rightarrow> persistHandler" where
  "setItem now data h =
     h\<lparr>timeoutId := Some (now + timer_delay (debounceTime (config h)), data),
       trace := trace h @ [SetItemCalled data]\<rparr>"

text \<open>The timer's callback: the call \<^verbatim>\<open>this.storage.setItem(this.key, { value: partialData,
  version: version })\<close>, recorded in the trace, followed by the call of the backend
  when the storage passes it on. Neither storage throws from this call (the adapter's
  \<^verbatim>\<open>setItem\<close> is \<^verbatim>\<open>async\<close>), so the \<^verbatim>\<open>catch\<close> is never entered.\<close>

definition timeout_callback :: "env \<Rightarrow> jsval \<Rightarrow> persistHandler \<Rightarrow> persistHandler" where
  "timeout_callback E data h =
     (let ver = version (config h);
          partialData = partial (config h) data;
          storedRecord = Obj [(''value'', partialData), (''version'', version_value ver)]
      in h\<lparr>trace := trace h @ [StorageSetItem (key h) storedRecord] @
            (case fst (storage_setItem E (storage h) (key h) storedRecord) of
               Some (k, stringifiedValue) \<Rightarrow> [BackendSetItem k stringifiedValue]
             | None \<Rightarrow> [])\<rparr>)"

text \<open>The clock reaches \<open>t\<close>: a pending timer that is due runs its callback.\<close>

definition run_timers :: "env \<Rightarrow> nat \<Rightarrow> persistHandler \<Rightarrow> persistHandler" where
  "run_timers E t h =
     (case timeoutId h of
        None \<Rightarrow> h
      | Some (due, data) \<Rightarrow>
          if due \<le> t then timeout_callback E data (h\<lparr>timeoutId := None\<rparr>) else h)"

text \<open>One listener is called with \<^verbatim>\<open>this.currentState\<close>.\<close>

definition call_listener :: "nat \<Rightarrow> listener \<Rightarrow> persistHandler \<Rightarrow> persistHandler" where
  "call_listener now l h =
     (let st = store h;
          h' = h\<lparr>store := st\<lparr>notified := notified st @ [(l, currentState st)]\<rparr>\<rparr>
      in case l of
           PersistListener \<Rightarrow> setItem now (currentState st) h'
         | UserListener n \<Rightarrow> h')"

text \<open>\<^verbatim>\<open>IgrisMaster.set(updateAction)\<close> for an \<open>updateAction\<close> that is a value: assign, then
  \<^verbatim>\<open>this.listeners.forEach((listener) => listener(this.currentState))\<close>.\<close>

definition IgrisMaster_set :: "nat \<Rightarrow> jsval \<Rightarrow> persistHandler \<Rightarrow> persistHandler" where
  "IgrisMaster_set now updateAction h =
     fold (call_listener now) (listeners (store h))
       (h\<lparr>store := (store h)\<lparr>currentState := updateAction\<rparr>\<rparr>)"

text \<open>\<^verbatim>\<open>IgrisMaster.subscribe(listener)\<close>: \<^verbatim>\<open>Set.add\<close>.\<close>

definition IgrisMaster_subscribe :: "listener \<Rightarrow> igrisMaster \<Rightarrow> igrisMaster" where
  "IgrisMaster_subscribe l st =
     (if l \<in> set (listeners st) then st else st\<lparr>listeners := listeners st @ [l]\<rparr>)"

text \<open>\<^verbatim>\<open>subscribeStore\<close>: \<^verbatim>\<open>this.unsubscribeStore()\<close> deletes the listener of the previous
  subscription, if there is one, then a new one is added.\<close>

definition subscribeStore :: "persistHandler \<Rightarrow> persistHandler" where
  "subscribeStore h =
     (let st = store h;
          unsubscribed = st\<lparr>listeners := filter (\<lambda>l. l \<noteq> PersistListener) (listeners st)\<rparr>
      in h\<lparr>store := IgrisMaster_subscribe PersistListener unsubscribed,
           trace := trace h @ [Subscribed]\<rparr>)"

text \<open>\<^verbatim>\<open>processStoredData(data)\<close>. The merge function is \<^verbatim>\<open>this.config.merge ?? shallowMerge\<close>
  (the subclass \<^verbatim>\<open>IgrisState\<close> configures a merge function of its own when the application
  gave none, so for it \<^verbatim>\<open>config.merge\<close> is set).\<close>

definition processStoredData :: "persistHandler \<Rightarrow> jsval \<Rightarrow> jsval" where
  "processStoredData h data =
     (if falsy data then currentState (store h)
      else
        let val = get_prop data ''value'';
            ver = get_prop data ''version'';
            processedData =
              (case migrate (config h) of
                 Some migrateFn \<Rightarrow>
                   if version_value (version (config h)) \<noteq> ver then migrateFn val ver else val
               | None \<Rightarrow> val);
            mergeFunction =
              (case merge (config h) of
                 Some mergeFn \<Rightarrow> mergeFn
               | None \<Rightarrow> (\<lambda>a b. shallowMerge [a, b]))
        in mergeFunction (currentState (store h)) processedData)"

text \<open>
  \<^verbatim>\<open>getItem()\<close>: the read of the storage. A plain answer is processed at once. A promise
  is awaited: the handler's \<^verbatim>\<open>async\<close> closure continues in \<open>getItem_resume\<close> when the
  promise has settled, processing the value it fulfilled with, or logging the error and
  returning \<^verbatim>\<open>null\<close> when it rejected.
\<close>

datatype stored_value = Processed jsval | Awaiting "jsval outcome"

definition getItem :: "env \<Rightarrow> persistHandler \<Rightarrow> stored_value \<times> persistHandler" where
  "getItem E h =
     (let h' = h\<lparr>trace := trace h @ [StorageGetItem (key h)]\<rparr>
      in case storage_getItem E (storage h) (key h) of
           Promise storedData \<Rightarrow> (Awaiting storedData, h')
         | Plain storedData \<Rightarrow> (Processed (processStoredData h' (nullish_null storedData)), h'))"

definition getItem_resume :: "persistHandler \<Rightarrow> jsval outcome \<Rightarrow> jsval" where
  "getItem_resume h storedData =
     (case storedData of
        Fulfils data \<Rightarrow> processStoredData h data
      | Rejects \<Rightarrow> Null)"

text \<open>
  \<^verbatim>\<open>hydrate()\<close>. After the first call the method is the replacement, which only returns
  what was cached. The first call reads; on a plain value it sets the container at once;
  on a promise it starts \<^verbatim>\<open>hydratePromise\<close>, whose body continues in \<open>hydrate_resume\<close>.
  Either way \<^verbatim>\<open>this.subscribeStore()\<close> follows before \<^verbatim>\<open>hydrate\<close> returns.
\<close>

definition hydrate :: "env \<Rightarrow> nat \<Rightarrow> persistHandler \<Rightarrow> wait_handle \<times> persistHandler" where
  "hydrate E now h =
     (case hydrate_method h of
        ReturnsUndefined \<Rightarrow> (Void, h)
      | ReturnsPromise p \<Rightarrow> (HydratePromise, h)
      | Prototype \<Rightarrow>
          (let (storedValue, h1) = getItem E (initializeStorage E h)
           in case storedValue of
                Awaiting out \<Rightarrow>
                  (HydratePromise,
                   subscribeStore (h1\<lparr>hydrate_method := ReturnsPromise (Pending out)\<rparr>))
              | Processed v \<Rightarrow>
                  (Void,
                   subscribeStore
                     ((IgrisMaster_set now v (h1\<lparr>trace := trace h1 @ [StoreSet v]\<rparr>))
                        \<lparr>hydrate_method := ReturnsUndefined\<rparr>))))"

text \<open>
  The awaited read settles at time \<open>now\<close>: \<^verbatim>\<open>const resolvedValue = await storedValue;
  this.store.set(resolvedValue)\<close>, and \<^verbatim>\<open>hydratePromise\<close> is fulfilled. The continuations
  of the adapter, of \<^verbatim>\<open>getItem\<close> and of \<^verbatim>\<open>hydrate\<close> run in consecutive microtasks and are
  one step here.
\<close>

definition hydrate_resume :: "nat \<Rightarrow> persistHandler \<Rightarrow> persistHandler" where
  "hydrate_resume now h =
     (case hydrate_method h of
        ReturnsPromise (Pending out) \<Rightarrow>
          (let resolvedValue = getItem_resume h out
           in (IgrisMaster_set now resolvedValue (h\<lparr>trace := trace h @ [StoreSet resolvedValue]\<rparr>))
                \<lparr>hydrate_method := ReturnsPromise Fulfilled\<rparr>)
      | _ \<Rightarrow> h)"

section \<open>Runs of one handler\<close>

text \<open>
  What can happen to a container with a handler: a call of \<^verbatim>\<open>hydrate()\<close>, the pending
  read settling, the application calling \<^verbatim>\<open>set\<close> with a value, \<^verbatim>\<open>subscribe\<close> or the
  handler's \<^verbatim>\<open>setItem\<close>, or nothing but time passing. Every event carries its time; the
  timers that are due by then run first.
\<close>

datatype event =
    Idle
  | CallHydrate
  | ReadSettles
  | CallSet jsval
  | CallSubscribe nat
  | CallSetItem jsval

fun step :: "env \<Rightarrow> persistHandler \<Rightarrow> nat \<times> event \<Rightarrow> persistHandler" where
  "step E h (t, Idle) = run_timers E t h"
| "step E h (t, CallHydrate) = snd (hydrate E t (run_timers E t h))"
| "step E h (t, ReadSettles) = hydrate_resume t (run_timers E t h)"
| "step E h (t, CallSet v) = IgrisMaster_set t v (run_timers E t h)"
| "step E h (t, CallSubscribe n) =
     (let h' = run_timers E t h in h'\<lparr>store := IgrisMaster_subscribe (UserListener n) (store h')\<rparr>)"
| "step E h (t, CallSetItem data) = setItem t data (run_timers E t h)"

definition run :: "env \<Rightarrow> persistHandler \<Rightarrow> (nat \<times> event) list \<Rightarrow> persistHandler" where
  "run E h evs = foldl (step E) h evs"

text \<open>The reads and the writes that reached the handler's storage, and the writes that
  reached a backend.\<close>

fun is_read :: "action \<Rightarrow> bool" where
  "is_read (StorageGetItem k) = True"
| "is_read a = False"

fun is_write :: "action \<Rightarrow> bool" where
  "is_write (StorageSetItem k r) = True"
| "is_write a = False"

definition reads :: "persistHandler \<Rightarrow> action list" where
  "reads h = filter is_read (trace h)"

definition writes :: "persistHandler \<Rightarrow> action list" where
  "writes h = filter is_write (trace h)"

fun is_backend_write :: "action \<Rightarrow> bool" where
  "is_backend_write (BackendSetItem k s) = True"
| "is_backend_write a = False"

definition backend_writes :: "persistHandler \<Rightarrow> action list" where
  "backend_writes h = filter is_backend_write (trace h)"

text \<open>The handle the replaced \<^verbatim>\<open>hydrate\<close> returns, if the method has been replaced.\<close>

fun cached_handle :: "hydrate_method \<Rightarrow> wait_handle option" where
  "cached_handle Prototype = None"
| "cached_handle ReturnsUndefined = Some Void"
| "cached_handle (ReturnsPromise p) = Some HydratePromise"

text \<open>A burst of calls of \<^verbatim>\<open>setItem\<close>, each with its time and its data, and the condition
  that each call comes less than \<open>d\<close> after the one before it.\<close>

definition burst :: "(nat \<times> jsval) list \<Rightarrow> (nat \<times> event) list" where
  "burst calls = map (\<lambda>(t, data). (t, CallSetItem data)) calls"

fun within :: "nat \<Rightarrow> (nat \<times> jsval) list \<Rightarrow> bool" where
  "within d [] = True"
| "within d [c] = True"
| "within d (c # c' # cs) = (fst c \<le> fst c' \<and> fst c' < fst c + d \<and> within d (c' # cs))"

text \<open>The record \<^verbatim>\<open>{ value: partial(data), version: config.version }\<close> a write carries.\<close>

definition stored_record :: "persistHandler \<Rightarrow> jsval \<Rightarrow> jsval" where
  "stored_record h data =
     Obj [(''value'', partial (config h) data), (''version'', version_value (version (config h)))]"

text \<open>In a trace, the container was set before the subscription was installed.\<close>

fun is_StoreSet :: "action \<Rightarrow> bool" where
  "is_StoreSet (StoreSet v) = True"
| "is_StoreSet a = False"

definition set_before_subscription :: "action list \<Rightarrow> bool" where
  "set_before_subscription tr = list_ex is_StoreSet (takeWhile (\<lambda>a. a \<noteq> Subscribed) tr)"

section \<open>The hydration coordinator\<close>

text \<open>
  \<^verbatim>\<open>setupHydrator(stores, config)\<close> receives references to containers; a container has a
  persist handler (which holds the container's state) or \<^verbatim>\<open>persist\<close> is \<^verbatim>\<open>null\<close>. The
  heap maps a reference to the container it denotes, so a container listed twice is one
  container.
\<close>

datatype container = Unpersisted igrisMaster | Persisted persistHandler

type_synonym heap = "nat \<Rightarrow> container"

text \<open>The \<^verbatim>\<open>for (const store of stores)\<close> loop; \<open>hydrationPromises\<close> collects the
  containers whose \<^verbatim>\<open>hydrate()\<close> returned a promise.\<close>

fun hydrate_stores ::
  "env \<Rightarrow> nat \<Rightarrow> provider option \<Rightarrow> nat list \<Rightarrow> nat list \<times> heap \<Rightarrow> nat list \<times> heap" where
  "hydrate_stores E now cfg [] (hydrationPromises, H) = (hydrationPromises, H)"
| "hydrate_stores E now cfg (r # rs) (hydrationPromises, H) =
     (case H r of
        Unpersisted st \<Rightarrow> hydrate_stores E now cfg rs (hydrationPromises, H)
      | Persisted h \<Rightarrow>
          (let h1 = (if storage_cfg (config h) = None \<and> cfg \<noteq> None
                     then h\<lparr>config := (config h)\<lparr>storage_cfg := cfg\<rparr>\<rparr> else h);
               (hydrationPromise, h2) = hydrate E now h1
           in hydrate_stores E now cfg rs
                (if hydrationPromise = HydratePromise then hydrationPromises @ [r]
                 else hydrationPromises,
                 H(r := Persisted h2))))"

text \<open>An invocation of the function \<^verbatim>\<open>setupHydrator\<close> returns: \<open>None\<close> is
  \<^verbatim>\<open>undefined\<close>, \<open>Some ps\<close> the promise of \<^verbatim>\<open>async () => { await Promise.all(ps) }\<close>.\<close>

definition setupHydrator ::
  "env \<Rightarrow> nat \<Rightarrow> nat list \<Rightarrow> provider option \<Rightarrow> heap \<Rightarrow> nat list option \<times> heap" where
  "setupHydrator E now stores cfg H =
     (let (hydrationPromises, H') = hydrate_stores E now cfg stores ([], H)
      in (if hydrationPromises = [] then None else Some hydrationPromises, H'))"

text \<open>The handle a container's handler has cached, and whether its promise is fulfilled.\<close>

definition handle_at :: "heap \<Rightarrow> nat \<Rightarrow> wait_handle option" where
  "handle_at H r =
     (case H r of Persisted h \<Rightarrow> cached_handle (hydrate_method h) | Unpersisted st \<Rightarrow> None)"

definition hydration_fulfilled :: "heap \<Rightarrow> nat \<Rightarrow> bool" where
  "hydration_fulfilled H r =
     (case H r of
        Persisted h \<Rightarrow> hydrate_method h = ReturnsPromise Fulfilled
      | Unpersisted st \<Rightarrow> False)"

text \<open>\<^verbatim>\<open>await Promise.all(hydrationPromises)\<close>: no \<^verbatim>\<open>hydratePromise\<close> rejects (the read's
  rejection is caught in \<^verbatim>\<open>getItem\<close>), so the joined promise is fulfilled exactly when
  every promise in the list is.\<close>

definition join_fulfilled :: "heap \<Rightarrow> nat list \<Rightarrow> bool" where
  "join_fulfilled H ps = list_all (hydration_fulfilled H) ps"

fun has_handler :: "container \<Rightarrow> bool" where
  "has_handler (Persisted h) = True"
| "has_handler (Unpersisted st) = False"

section \<open>The hydration gate\<close>

text \<open>
  The component \<^verbatim>\<open>Hydrator\<close> keeps two refs: \<^verbatim>\<open>promiseRef\<close>, which is \<^verbatim>\<open>undefined\<close> until
  the first \<^verbatim>\<open>getSnapshot\<close> and then \<^verbatim>\<open>null\<close> or the promise the hydration attempt returned,
  and the flag \<^verbatim>\<open>isHydrated\<close>. A callback registered by \<^verbatim>\<open>subscribe\<close> with
  \<^verbatim>\<open>Promise.resolve(promiseRef.current).then(...)\<close> waits for that promise (\<open>waiting\<close>), or
  is queued as a microtask when there is nothing to wait for (\<open>queued\<close>). \<open>settled\<close> is
  the state of the promise: pending, or whether it was fulfilled.
\<close>

datatype promise_ref = RefUndefined | RefNull | RefPromise

record hydrator =
  promiseRef :: promise_ref
  isHydrated :: bool
  waiting :: nat
  queued :: nat
  settled :: "bool option"


text \<open>What the hydration attempt (\<^verbatim>\<open>props.handler()\<close>, or the coordinator over
  \<^verbatim>\<open>props.stores\<close>) returns when it is issued.\<close>

datatype attempt = ReturnsVoid | ReturnsAPromise

definition getSnapshot :: "attempt \<Rightarrow> hydrator \<Rightarrow> bool \<times> hydrator" where
  "getSnapshot a g =
     (let g' =
        (if promiseRef g = RefUndefined then
           let g1 = g\<lparr>promiseRef := (case a of ReturnsVoid \<Rightarrow> RefNull | ReturnsAPromise \<Rightarrow> RefPromise)\<rparr>
           in if promiseRef g1 \<noteq> RefPromise then g1\<lparr>isHydrated := True\<rparr> else g1
         else g)
      in (isHydrated g', g'))"

definition subscribe :: "hydrator \<Rightarrow> hydrator" where
  "subscribe g =
     (if \<not> isHydrated g then
        (if promiseRef g = RefPromise then
           (case settled g of
              None \<Rightarrow> g\<lparr>waiting := waiting g + 1\<rparr>
            | Some fulfilled \<Rightarrow> if fulfilled then g\<lparr>queued := queued g + 1\<rparr> else g)
         else g\<lparr>queued := queued g + 1\<rparr>)
      else g)"

text \<open>The queued callbacks run: \<^verbatim>\<open>isHydrated = true; onStoreChange()\<close>.\<close>

definition run_queued :: "hydrator \<Rightarrow> hydrator" where
  "run_queued g = (if 0 < queued g then g\<lparr>isHydrated := True, queued := 0\<rparr> else g)"

text \<open>The promise settles: fulfilled, the callbacks that wait for it run; rejected, they
  are dropped (\<^verbatim>\<open>then\<close> was given no rejection handler).\<close>

definition settle :: "bool \<Rightarrow> hydrator \<Rightarrow> hydrator" where
  "settle fulfilled g =
     (if promiseRef g = RefPromise \<and> settled g = None then
        (if fulfilled \<and> 0 < waiting g
         then g\<lparr>settled := Some fulfilled, isHydrated := True, waiting := 0\<rparr>
         else g\<lparr>settled := Some fulfilled, waiting := 0\<rparr>)
      else g)"

text \<open>What the component renders.\<close>

datatype rendered = LoadingComponent | Children

definition render :: "attempt \<Rightarrow> hydrator \<Rightarrow> rendered \<times> hydrator" where
  "render a g =
     (let (hydrated, g') = getSnapshot a g
      in (if \<not> hydrated then LoadingComponent else Children, g'))"

datatype gate_event = Render | Subscribe | Microtasks | Settles bool

fun gate_step :: "attempt \<Rightarrow> hydrator \<Rightarrow> gate_event \<Rightarrow> hydrator" where
  "gate_step a g Render = snd (render a g)"
| "gate_step a g Subscribe = subscribe g"
| "gate_step a g Microtasks = run_queued g"
| "gate_step a g (Settles fulfilled) = settle fulfilled g"

definition gate_run :: "attempt \<Rightarrow> hydrator \<Rightarrow> gate_event list \<Rightarrow> hydrator" where
  "gate_run a g evs = foldl (gate_step a) g evs"


section \<open>Example inputs\<close>

definition sync_backend :: "string option \<Rightarrow> backend" where
  "sync_backend item =
     \<lparr> backend_getItem = (\<lambda>k. Plain item),
       backend_setItem = (\<lambda>k s. Plain ()),
       backend_removeItem = (\<lambda>k. Plain ()) \<rparr>"

definition async_backend :: "string option outcome \<Rightarrow> backend" where
  "async_backend item =
     \<lparr> backend_getItem = (\<lambda>k. Promise item),
       backend_setItem = (\<lambda>k s. Promise (Fulfils ())),
       backend_removeItem = (\<lambda>k. Promise (Fulfils ())) \<rparr>"

text \<open>An environment in which the string \<open>stored\<close> parses to the record
  \<^verbatim>\<open>{ value: { count: 5 } }\<close>, no other string parses, the records
  \<^verbatim>\<open>{ value: { count: n }, version: 1 }\<close> for \<open>n\<close> from 1 to 3 serialise to the strings
  \<open>count1\<close> to \<open>count3\<close>, and there is no \<^verbatim>\<open>localStorage\<close>.\<close>

definition example_env :: env where
  "example_env =
     \<lparr> JSON_parse = (\<lambda>s. if s = ''stored'' then Some (Obj [(''value'', Obj [(''count'', Num 5)])])
                         else None),
       JSON_stringify =
         (\<lambda>v. if v = Obj [(''value'', Obj [(''count'', Num 1)]), (''version'', Num 1)] then ''count1''
              else if v = Obj [(''value'', Obj [(''count'', Num 2)]), (''version'', Num 1)] then ''count2''
              else if v = Obj [(''value'', Obj [(''count'', Num 3)]), (''version'', Num 1)] then ''count3''
              else ''other''),
       localStorage = None \<rparr>"

definition example_store :: igrisMaster where
  "example_store =
     \<lparr> currentState = Obj [(''count'', Num 0), (''name'', Str ''a'')],
       listeners = [UserListener 0],
       notified = [] \<rparr>"

text \<open>A handler as the constructor makes it, with \<^verbatim>\<open>{ version: 1, storage: b }\<close>.\<close>

definition example_handler :: "backend \<Rightarrow> persistHandler" where
  "example_handler b =
     new_PersistHandler ''count'' example_store
       \<lparr> pc_debounceTime = None, pc_version = Some 1, pc_migrate = None, pc_partial = None,
         pc_merge = None, pc_storage = Some (Instance b), pc_skipHydrate = None \<rparr>"

text \<open>Handlers whose storage has been initialised over a backend that answers at once:
  one with the default \<^verbatim>\<open>debounceTime\<close> of 100, one with \<^verbatim>\<open>debounceTime: 2147483648\<close>.\<close>

definition initialised_handler :: persistHandler where
  "initialised_handler = initializeStorage example_env (example_handler (sync_backend None))"

definition long_delay_handler :: persistHandler where
  "long_delay_handler =
     initializeStorage example_env
       (new_PersistHandler ''count'' example_store
          \<lparr> pc_debounceTime = Some 2147483648, pc_version = Some 1, pc_migrate = None,
            pc_partial = None, pc_merge = None,
            pc_storage = Some (Instance (sync_backend None)), pc_skipHydrate = None \<rparr>)"

text \<open>Three calls of \<^verbatim>\<open>setItem\<close>, 20 ms apart.\<close>

definition three_calls :: "(nat \<times> jsval) list" where
  "three_calls =
     [(0, Obj [(''count'', Num 1)]), (20, Obj [(''count'', Num 2)]), (40, Obj [(''count'', Num 3)])]"

definition example_heap :: heap where
  "example_heap =
     (\<lambda>r. if r = 0 then Unpersisted example_store
          else if r = 1 then Persisted (example_handler (sync_backend (Some ''stored'')))
          else Persisted (example_handler (async_backend (Fulfils (Some ''stored'')))))"

section \<open>Shallow merge\<close>

lemma map_of_fold_update:
  "map_of (fold (\<lambda>(k, v). AList.update k v) xs acc) = map_of acc ++ map_of (rev xs)"
proof (induction xs arbitrary: acc)
  case Nil
  then show ?case by simp
next
  case (Cons x xs)
  obtain k v where x: "x = (k, v)" by (cases x)
  show ?case
    by (rule ext) (simp add: x Cons.IH update_conv' map_add_def split: option.splits)
qed

lemma distinct_fold_update:
  "distinct (map fst acc) \<Longrightarrow> distinct (map fst (fold (\<lambda>(k, v). AList.update k v) xs acc))"
  by (induction xs arbitrary: acc) (auto simp: distinct_update)

lemma map_of_rev_distinct: "distinct (map fst xs) \<Longrightarrow> map_of (rev xs) = map_of xs"
  by (rule ext) (metis distinct_rev map_of_eq_Some_iff map_of_eq_None_iff not_Some_eq rev_map set_rev)

lemma map_of_spread_Obj:
  "distinct (map fst b) \<Longrightarrow> map_of (spread acc (Obj b)) = map_of acc ++ map_of b"
  by (simp add: spread_def map_of_fold_update map_of_rev_distinct)

lemma distinct_spread: "distinct (map fst acc) \<Longrightarrow> distinct (map fst (spread acc x))"
  by (simp add: spread_def distinct_fold_update)

lemma shallowMerge_pair:
  "shallowMerge [a, b] = Obj (spread (spread [] (Obj (spread [] a))) b)"
  by (simp add: shallowMerge_def spread_def)

lemma shallowMerge_objects:
  assumes "distinct (map fst a)" and "distinct (map fst b)"
  shows "\<exists>c. shallowMerge [Obj a, Obj b] = Obj c \<and> map_of c = map_of a ++ map_of b"
proof -
  have d: "distinct (map fst (spread [] (Obj a)))"
    by (simp add: distinct_spread)
  have "map_of (spread (spread [] (Obj (spread [] (Obj a)))) (Obj b)) = map_of a ++ map_of b"
    using assms d by (simp add: map_of_spread_Obj)
  then show ?thesis
    by (simp add: shallowMerge_pair)
qed

section \<open>The fields after each operation\<close>

lemma initializeStorage_trace: "trace (initializeStorage E h) = trace h"
  by (simp add: initializeStorage_def Let_def split: option.splits)

lemma run_timers_fields:
  "hydrate_method (run_timers E t h) = hydrate_method h"
  "store (run_timers E t h) = store h"
  "config (run_timers E t h) = config h"
  "key (run_timers E t h) = key h"
  "storage (run_timers E t h) = storage h"
  by (simp_all add: run_timers_def timeout_callback_def Let_def split: option.splits)

lemma run_timers_trace:
  "trace (run_timers E t h) =
     trace h @ (case timeoutId h of
                  None \<Rightarrow> []
                | Some (due, data) \<Rightarrow>
                    if due \<le> t then
                      StorageSetItem (key h) (stored_record h data) #
                      (case storage h of
                         UninitializedStorage \<Rightarrow> []
                       | JSONStorage b \<Rightarrow>
                           [BackendSetItem (key h) (JSON_stringify E (stored_record h data))])
                    else [])"
  by (simp add: run_timers_def timeout_callback_def stored_record_def Let_def
        split: option.splits storage.splits)

lemma setItem_fields:
  "hydrate_method (setItem t d h) = hydrate_method h"
  "store (setItem t d h) = store h"
  "config (setItem t d h) = config h"
  "key (setItem t d h) = key h"
  "storage (setItem t d h) = storage h"
  "trace (setItem t d h) = trace h @ [SetItemCalled d]"
  "timeoutId (setItem t d h) = Some (t + timer_delay (debounceTime (config h)), d)"
  by (simp_all add: setItem_def)

lemma call_listener_fields:
  "hydrate_method (call_listener t l h) = hydrate_method h"
  "config (call_listener t l h) = config h"
  "key (call_listener t l h) = key h"
  "storage (call_listener t l h) = storage h"
  "listeners (store (call_listener t l h)) = listeners (store h)"
  "currentState (store (call_listener t l h)) = currentState (store h)"
  "notified (store (call_listener t l h)) = notified (store h) @ [(l, currentState (store h))]"
  "trace (call_listener t l h) =
     trace h @ (if l = PersistListener then [SetItemCalled (currentState (store h))] else [])"
  by (cases l; simp add: call_listener_def setItem_def Let_def)+

lemma fold_call_listener_fields:
  "hydrate_method (fold (call_listener t) ls h) = hydrate_method h"
  "config (fold (call_listener t) ls h) = config h"
  "key (fold (call_listener t) ls h) = key h"
  "storage (fold (call_listener t) ls h) = storage h"
  "listeners (store (fold (call_listener t) ls h)) = listeners (store h)"
  "currentState (store (fold (call_listener t) ls h)) = currentState (store h)"
  by (induction ls arbitrary: h; simp add: call_listener_fields)+

lemma fold_call_listener_notified:
  "notified (store (fold (call_listener t) ls h)) =
     notified (store h) @ map (\<lambda>l. (l, currentState (store h))) ls"
  by (induction ls arbitrary: h) (simp_all add: call_listener_fields)

lemma fold_call_listener_trace:
  "trace (fold (call_listener t) ls h) =
     trace h @ map (\<lambda>l. SetItemCalled (currentState (store h))) (filter (\<lambda>l. l = PersistListener) ls)"
  by (induction ls arbitrary: h) (simp_all add: call_listener_fields)

lemma IgrisMaster_set_fields:
  "hydrate_method (IgrisMaster_set t v h) = hydrate_method h"
  "config (IgrisMaster_set t v h) = config h"
  "key (IgrisMaster_set t v h) = key h"
  "storage (IgrisMaster_set t v h) = storage h"
  "listeners (store (IgrisMaster_set t v h)) = listeners (store h)"
  "currentState (store (IgrisMaster_set t v h)) = v"
  "notified (store (IgrisMaster_set t v h)) = notified (store h) @ map (\<lambda>l. (l, v)) (listeners (store h))"
  "trace (IgrisMaster_set t v h) =
     trace h @ map (\<lambda>l. SetItemCalled v) (filter (\<lambda>l. l = PersistListener) (listeners (store h)))"
  by (simp_all add: IgrisMaster_set_def fold_call_listener_fields fold_call_listener_notified
        fold_call_listener_trace)

lemma subscribeStore_trace: "trace (subscribeStore h) = trace h @ [Subscribed]"
  by (simp add: subscribeStore_def Let_def)

lemma getItem_fields:
  "trace (snd (getItem E h)) = trace h @ [StorageGetItem (key h)]"
  "hydrate_method (snd (getItem E h)) = hydrate_method h"
  "store (snd (getItem E h)) = store h"
  "config (snd (getItem E h)) = config h"
  "key (snd (getItem E h)) = key h"
  "timeoutId (snd (getItem E h)) = timeoutId h"
  by (simp_all add: getItem_def Let_def split: returned.splits)

lemma initializeStorage_fields:
  "config (initializeStorage E h) = config h"
  "store (initializeStorage E h) = store h"
  "key (initializeStorage E h) = key h"
  "hydrate_method (initializeStorage E h) = hydrate_method h"
  "timeoutId (initializeStorage E h) = timeoutId h"
  by (simp_all add: initializeStorage_def Let_def split: option.splits)

lemma subscribeStore_fields:
  "currentState (store (subscribeStore h)) = currentState (store h)"
  "config (subscribeStore h) = config h"
  "key (subscribeStore h) = key h"
  "hydrate_method (subscribeStore h) = hydrate_method h"
  "timeoutId (subscribeStore h) = timeoutId h"
  "notified (store (subscribeStore h)) = notified (store h)"
  "listeners (store (subscribeStore h)) =
     filter (\<lambda>l. l \<noteq> PersistListener) (listeners (store h)) @ [PersistListener]"
  by (simp_all add: subscribeStore_def IgrisMaster_subscribe_def Let_def)

lemma processStoredData_eqI:
  "currentState (store h') = currentState (store h) \<Longrightarrow> config h' = config h \<Longrightarrow>
   processStoredData h' d = processStoredData h d"
  by (simp add: processStoredData_def Let_def split: option.splits)

lemma hydrate_plain:
  assumes "hydrate_method h = Prototype"
    and "storage_getItem E (storage (initializeStorage E h)) (key h) = Plain d"
  shows "hydrate E t h =
     (Void,
      subscribeStore
        ((IgrisMaster_set t (processStoredData h (nullish_null d))
            ((initializeStorage E h)
               \<lparr>trace := trace h @ [StorageGetItem (key h), StoreSet (processStoredData h (nullish_null d))]\<rparr>))
         \<lparr>hydrate_method := ReturnsUndefined\<rparr>))"
proof -
  have "processStoredData ((initializeStorage E h)\<lparr>trace := trace h @ [StorageGetItem (key h)]\<rparr>)
          (nullish_null d) = processStoredData h (nullish_null d)"
    by (rule processStoredData_eqI) (simp_all add: initializeStorage_fields)
  then show ?thesis
    using assms
    by (simp add: hydrate_def getItem_def Let_def initializeStorage_fields initializeStorage_trace)
qed

lemma hydrate_promise:
  assumes "hydrate_method h = Prototype"
    and "storage_getItem E (storage (initializeStorage E h)) (key h) = Promise out"
  shows "hydrate E t h =
     (HydratePromise,
      subscribeStore
        ((initializeStorage E h)
           \<lparr>trace := trace h @ [StorageGetItem (key h)],
             hydrate_method := ReturnsPromise (Pending out)\<rparr>))"
  using assms
  by (simp add: hydrate_def getItem_def Let_def initializeStorage_fields initializeStorage_trace)

lemma hydrate_plain_fields:
  assumes "hydrate_method h = Prototype"
    and "storage_getItem E (storage (initializeStorage E h)) (key h) = Plain d"
  shows "fst (hydrate E t h) = Void"
    and "hydrate_method (snd (hydrate E t h)) = ReturnsUndefined"
    and "currentState (store (snd (hydrate E t h))) = processStoredData h (nullish_null d)"
    and "config (snd (hydrate E t h)) = config h"
    and "key (snd (hydrate E t h)) = key h"
    and "notified (store (snd (hydrate E t h))) =
           notified (store h) @
           map (\<lambda>l. (l, processStoredData h (nullish_null d))) (listeners (store h))"
    and "trace (snd (hydrate E t h)) =
           trace h @ [StorageGetItem (key h), StoreSet (processStoredData h (nullish_null d))] @
           map (\<lambda>l. SetItemCalled (processStoredData h (nullish_null d)))
             (filter (\<lambda>l. l = PersistListener) (listeners (store h))) @
           [Subscribed]"
  by (simp_all add: hydrate_plain[OF assms] subscribeStore_fields subscribeStore_trace
        IgrisMaster_set_fields initializeStorage_fields)

lemma hydrate_promise_fields:
  assumes "hydrate_method h = Prototype"
    and "storage_getItem E (storage (initializeStorage E h)) (key h) = Promise out"
  shows "fst (hydrate E t h) = HydratePromise"
    and "hydrate_method (snd (hydrate E t h)) = ReturnsPromise (Pending out)"
    and "currentState (store (snd (hydrate E t h))) = currentState (store h)"
    and "config (snd (hydrate E t h)) = config h"
    and "key (snd (hydrate E t h)) = key h"
    and "notified (store (snd (hydrate E t h))) = notified (store h)"
    and "listeners (store (snd (hydrate E t h))) =
           filter (\<lambda>l. l \<noteq> PersistListener) (listeners (store h)) @ [PersistListener]"
    and "trace (snd (hydrate E t h)) = trace h @ [StorageGetItem (key h), Subscribed]"
  by (simp_all add: hydrate_promise[OF assms] subscribeStore_fields subscribeStore_trace
        initializeStorage_fields)

lemma hydrate_resume_pending:
  assumes "hydrate_method g = ReturnsPromise (Pending out)"
  shows "hydrate_resume t g =
     (IgrisMaster_set t (getItem_resume g out) (g\<lparr>trace := trace g @ [StoreSet (getItem_resume g out)]\<rparr>))
       \<lparr>hydrate_method := ReturnsPromise Fulfilled\<rparr>"
  using assms by (simp add: hydrate_resume_def Let_def)

lemma hydrate_resume_pending_fields:
  assumes "hydrate_method g = ReturnsPromise (Pending out)"
  shows "hydrate_method (hydrate_resume t g) = ReturnsPromise Fulfilled"
    and "currentState (store (hydrate_resume t g)) = getItem_resume g out"
    and "notified (store (hydrate_resume t g)) =
           notified (store g) @ map (\<lambda>l. (l, getItem_resume g out)) (listeners (store g))"
    and "trace (hydrate_resume t g) =
           trace g @ [StoreSet (getItem_resume g out)] @
           map (\<lambda>l. SetItemCalled (getItem_resume g out))
             (filter (\<lambda>l. l = PersistListener) (listeners (store g)))"
  by (simp_all add: hydrate_resume_pending[OF assms] IgrisMaster_set_fields)

lemma hydrate_resume_other:
  "hydrate_method g = ReturnsUndefined \<Longrightarrow> hydrate_resume t g = g"
  "hydrate_method g = ReturnsPromise Fulfilled \<Longrightarrow> hydrate_resume t g = g"
  "hydrate_method g = Prototype \<Longrightarrow> hydrate_resume t g = g"
  by (simp_all add: hydrate_resume_def)


section \<open>What a hydration leaves in the container\<close>

text \<open>
  C3. A stored record whose version differs from \<^verbatim>\<open>config.version\<close> is read, at once
  or through a promise. The hydrated state is \<open>merge currentState (migrate value version)\<close>
  when a migrate function is configured and \<open>merge currentState value\<close> when none is,
  where \<open>merge\<close> is the configured merge function or else \<open>shallowMerge\<close>. On two
  objects \<open>shallowMerge\<close> returns an object that has, for every key of the stored
  object, the stored value as a whole, and for every other key the current value.
\<close>

theorem hydrate_version_mismatch:
  assumes "hydrate_method h = Prototype"
    and "storage_getItem E (storage (initializeStorage E h)) (key h) = Plain (Obj ps)
         \<or> storage_getItem E (storage (initializeStorage E h)) (key h) = Promise (Fulfils (Obj ps))"
    and "get_prop (Obj ps) ''version'' \<noteq> version_value (version (config h))"
  shows "currentState (store (hydrate_resume t' (snd (hydrate E t h)))) =
           (case merge (config h) of Some mergeFn \<Rightarrow> mergeFn | None \<Rightarrow> (\<lambda>a b. shallowMerge [a, b]))
             (currentState (store h))
             (case migrate (config h) of
                Some migrateFn \<Rightarrow> migrateFn (get_prop (Obj ps) ''value'') (get_prop (Obj ps) ''version'')
              | None \<Rightarrow> get_prop (Obj ps) ''value'')
         \<and> (\<forall>a b. distinct (map fst a) \<and> distinct (map fst b) \<longrightarrow>
               (\<exists>c. shallowMerge [Obj a, Obj b] = Obj c \<and> map_of c = map_of a ++ map_of b))"
proof -
  let ?h' = "snd (hydrate E t h)"
  have processed: "processStoredData h (Obj ps) =
      (case merge (config h) of Some mergeFn \<Rightarrow> mergeFn | None \<Rightarrow> (\<lambda>a b. shallowMerge [a, b]))
             (currentState (store h))
             (case migrate (config h) of
                Some migrateFn \<Rightarrow> migrateFn (get_prop (Obj ps) ''value'') (get_prop (Obj ps) ''version'')
              | None \<Rightarrow> get_prop (Obj ps) ''value'')"
    using assms(3) by (simp add: processStoredData_def Let_def split: option.splits)
  from assms(2) have "currentState (store (hydrate_resume t' ?h')) = processStoredData h (Obj ps)"
  proof
    assume plain: "storage_getItem E (storage (initializeStorage E h)) (key h) = Plain (Obj ps)"
    have "hydrate_resume t' ?h' = ?h'"
      using hydrate_plain_fields(2)[OF assms(1) plain] by (rule hydrate_resume_other(1))
    then show ?thesis
      using hydrate_plain_fields(3)[OF assms(1) plain] by simp
  next
    assume later: "storage_getItem E (storage (initializeStorage E h)) (key h) = Promise (Fulfils (Obj ps))"
    have "currentState (store (hydrate_resume t' ?h')) = getItem_resume ?h' (Fulfils (Obj ps))"
      using hydrate_promise_fields(2)[OF assms(1) later] by (rule hydrate_resume_pending_fields(2))
    also have "\<dots> = processStoredData ?h' (Obj ps)"
      by (simp add: getItem_resume_def)
    also have "\<dots> = processStoredData h (Obj ps)"
    proof (rule processStoredData_eqI)
      show "config ?h' = config h" by (rule hydrate_promise_fields(4)[OF assms(1) later])
      show "currentState (store ?h') = currentState (store h)"
        by (rule hydrate_promise_fields(3)[OF assms(1) later])
    qed
    finally show ?thesis .
  qed
  with processed show ?thesis
    by (simp add: shallowMerge_objects)
qed

text \<open>The unfoldings that evaluate the model on the example inputs.\<close>

lemmas example_defs =
  example_handler_def example_env_def example_store_def new_PersistHandler_def
  sync_backend_def async_backend_def

lemmas handler_defs =
  hydrate_def hydrate_resume_def getItem_def getItem_resume_def initializeStorage_def
  createJSONStorage_def parseJSON_def processStoredData_def subscribeStore_def
  IgrisMaster_subscribe_def IgrisMaster_set_def call_listener_def setItem_def
  run_timers_def timeout_callback_def timer_delay_def shallowMerge_def spread_def Let_def

theorem hydrate_version_mismatch_witness:
  "hydrate_method (example_handler (sync_backend (Some ''stored''))) = Prototype
   \<and> storage_getItem example_env
        (storage (initializeStorage example_env (example_handler (sync_backend (Some ''stored'')))))
        (key (example_handler (sync_backend (Some ''stored''))))
      = Plain (Obj [(''value'', Obj [(''count'', Num 5)])])
   \<and> get_prop (Obj [(''value'', Obj [(''count'', Num 5)])]) ''version''
      \<noteq> version_value (version (config (example_handler (sync_backend (Some ''stored'')))))
   \<and> currentState (store (hydrate_resume 1
        (snd (hydrate example_env 0 (example_handler (sync_backend (Some ''stored'')))))))
      = Obj [(''count'', Num 5), (''name'', Str ''a'')]"
  using hydrate_version_mismatch
    [where h = "example_handler (sync_backend (Some ''stored''))" and E = example_env
       and ps = "[(''value'', Obj [(''count'', Num 5)])]" and t = 0 and t' = 1]
  by (simp add: example_defs handler_defs)

text \<open>
  C4. The backend has no record under the handler's key: its \<^verbatim>\<open>getItem\<close> returns
  \<^verbatim>\<open>null\<close>, at once or through a promise. After the hydration the container's state is
  the state it had before.
\<close>

theorem hydrate_without_record:
  assumes "hydrate_method h = Prototype"
    and "storage (initializeStorage E h) = JSONStorage b"
    and "backend_getItem b (key h) = Plain None \<or> backend_getItem b (key h) = Promise (Fulfils None)"
  shows "currentState (store (hydrate_resume t' (snd (hydrate E t h)))) = currentState (store h)"
proof -
  let ?h' = "snd (hydrate E t h)"
  from assms(3) show ?thesis
  proof
    assume "backend_getItem b (key h) = Plain None"
    then have plain: "storage_getItem E (storage (initializeStorage E h)) (key h) = Plain Null"
      by (simp add: assms(2) parseJSON_def)
    have "hydrate_resume t' ?h' = ?h'"
      using hydrate_plain_fields(2)[OF assms(1) plain] by (rule hydrate_resume_other(1))
    then show ?thesis
      using hydrate_plain_fields(3)[OF assms(1) plain] by (simp add: processStoredData_def)
  next
    assume "backend_getItem b (key h) = Promise (Fulfils None)"
    then have later: "storage_getItem E (storage (initializeStorage E h)) (key h) = Promise (Fulfils Null)"
      by (simp add: assms(2) parseJSON_def)
    have "currentState (store (hydrate_resume t' ?h')) = getItem_resume ?h' (Fulfils Null)"
      using hydrate_promise_fields(2)[OF assms(1) later] by (rule hydrate_resume_pending_fields(2))
    also have "\<dots> = currentState (store ?h')"
      by (simp add: getItem_resume_def processStoredData_def)
    finally show ?thesis
      using hydrate_promise_fields(3)[OF assms(1) later] by simp
  qed
qed

theorem hydrate_without_record_witness:
  "hydrate_method (example_handler (async_backend (Fulfils None))) = Prototype
   \<and> storage (initializeStorage example_env (example_handler (async_backend (Fulfils None))))
      = JSONStorage (async_backend (Fulfils None))
   \<and> backend_getItem (async_backend (Fulfils None)) (key (example_handler (async_backend (Fulfils None))))
      = Promise (Fulfils None)
   \<and> currentState (store (hydrate_resume 1
        (snd (hydrate example_env 0 (example_handler (async_backend (Fulfils None)))))))
      = Obj [(''count'', Num 0), (''name'', Str ''a'')]"
  using hydrate_without_record
    [where h = "example_handler (async_backend (Fulfils None))" and E = example_env
       and b = "async_backend (Fulfils None)" and t = 0 and t' = 1]
  by (simp add: example_defs handler_defs)

section \<open>Hydrating once\<close>





lemma hydrate_first:
  assumes "hydrate_method h = Prototype"
  shows "cached_handle (hydrate_method (snd (hydrate E t h))) = Some (fst (hydrate E t h))"
    and "reads (snd (hydrate E t h)) = reads h @ [StorageGetItem (key h)]"
proof -
  show "cached_handle (hydrate_method (snd (hydrate E t h))) = Some (fst (hydrate E t h))"
  proof (cases "storage_getItem E (storage (initializeStorage E h)) (key h)")
    case (Plain d)
    show ?thesis by (simp add: hydrate_plain_fields[OF assms Plain])
  next
    case (Promise out)
    show ?thesis by (simp add: hydrate_promise_fields[OF assms Promise])
  qed
  show "reads (snd (hydrate E t h)) = reads h @ [StorageGetItem (key h)]"
  proof (cases "storage_getItem E (storage (initializeStorage E h)) (key h)")
    case (Plain d)
    show ?thesis by (simp add: reads_def hydrate_plain_fields[OF assms Plain])
  next
    case (Promise out)
    show ?thesis by (simp add: reads_def hydrate_promise_fields[OF assms Promise])
  qed
qed



section \<open>Debounced writes\<close>

lemma run_Cons: "run E h (ev # evs) = run E (step E h ev) evs"
  by (simp add: run_def)

lemma run_append: "run E h (evs @ evs') = run E (run E h evs) evs'"
  by (simp add: run_def)

lemma backend_writes_setItem: "backend_writes (setItem t d h) = backend_writes h"
  by (simp add: backend_writes_def setItem_fields)

lemma run_timers_not_due:
  "timeoutId h = Some (due, data) \<Longrightarrow> t < due \<Longrightarrow> run_timers E t h = h"
  by (simp add: run_timers_def)

lemma run_timers_due:
  "timeoutId h = Some (due, data) \<Longrightarrow> due \<le> t \<Longrightarrow> storage h = JSONStorage b \<Longrightarrow>
   backend_writes (run_timers E t h) =
     backend_writes h @ [BackendSetItem (key h) (JSON_stringify E (stored_record h data))]"
  by (simp add: backend_writes_def run_timers_trace)

lemma timer_delay_ge: "d \<le> 2147483647 \<Longrightarrow> d \<le> timer_delay d"
  by (simp add: timer_delay_def)

lemma burst_state:
  assumes "calls \<noteq> []" and "within (debounceTime (config h)) calls"
    and "debounceTime (config h) \<le> 2147483647"
  shows "timeoutId (run E h (burst calls)) =
           Some (fst (last calls) + timer_delay (debounceTime (config h)), snd (last calls))
       \<and> backend_writes (run E h (burst calls)) = backend_writes (run_timers E (fst (hd calls)) h)
       \<and> config (run E h (burst calls)) = config h
       \<and> key (run E h (burst calls)) = key h
       \<and> storage (run E h (burst calls)) = storage h"
  using assms
proof (induction calls arbitrary: h)
  case Nil
  then show ?case by simp
next
  case (Cons c cs)
  obtain t x where c: "c = (t, x)" by (cases c)
  let ?h1 = "setItem t x (run_timers E t h)"
  have h1: "timeoutId ?h1 = Some (t + timer_delay (debounceTime (config h)), x)"
    "config ?h1 = config h" "key ?h1 = key h" "storage ?h1 = storage h"
    "backend_writes ?h1 = backend_writes (run_timers E t h)"
    by (simp_all add: setItem_fields run_timers_fields backend_writes_setItem)
  show ?case
  proof (cases cs)
    case Nil
    then show ?thesis
      using h1 by (simp add: burst_def c run_def)
  next
    case (Cons c' cs')
    obtain t' y where c': "c' = (t', y)" by (cases c')
    have "t' < t + debounceTime (config h)"
      using Cons.prems(2) by (simp add: Cons c c')
    then have close: "t' < t + timer_delay (debounceTime (config h))"
      using timer_delay_ge[OF Cons.prems(3)] by simp
    have rest: "within (debounceTime (config ?h1)) cs"
      using Cons.prems(2) by (simp add: Cons c c' h1)
    have bound: "debounceTime (config ?h1) \<le> 2147483647"
      using Cons.prems(3) by (simp add: h1)
    have ne: "cs \<noteq> []" by (simp add: Cons)
    have idle: "run_timers E (fst (hd cs)) ?h1 = ?h1"
      using h1(1) close by (simp add: Cons c' run_timers_not_due)
    have "run E h (burst (c # cs)) = run E ?h1 (burst cs)"
      by (simp add: burst_def c run_Cons)
    then show ?thesis
      using Cons.IH[OF ne rest bound] h1 idle ne by (simp add: c)
  qed
qed

text \<open>
  C2, as stated, fails in two ways. With \<^verbatim>\<open>debounceTime: 2147483648\<close> the timer of every
  call runs after 1 ms, so three calls 20 ms apart, which is less than \<open>debounceTime\<close>,
  make three writes reach the backend. And on a handler whose storage has not been
  initialised the write of a burst goes to the sentinel: none reaches a backend.
\<close>

theorem debounce_burst_counterexample:
  "debounceTime (config long_delay_handler) = 2147483648
   \<and> storage long_delay_handler = JSONStorage (sync_backend None)
   \<and> within (debounceTime (config long_delay_handler)) three_calls
   \<and> backend_writes (run example_env long_delay_handler (burst three_calls @ [(1000, Idle)]))
      = [BackendSetItem ''count'' ''count1'', BackendSetItem ''count'' ''count2'',
         BackendSetItem ''count'' ''count3'']
   \<and> storage (example_handler (sync_backend None)) = UninitializedStorage
   \<and> within (debounceTime (config (example_handler (sync_backend None)))) three_calls
   \<and> backend_writes (run example_env (example_handler (sync_backend None))
        (burst three_calls @ [(1000, Idle)]))
      = []"
  by (simp add: long_delay_handler_def three_calls_def example_defs handler_defs burst_def run_def
        backend_writes_def)

text \<open>
  C2, amended. The handler's storage has been initialised over a backend and
  \<open>debounceTime\<close> is at most \<open>2\<^sup>3\<^sup>1 - 1\<close>. A burst of one or more calls of
  \<^verbatim>\<open>setItem\<close>, each less than \<open>debounceTime\<close> after the one before: once the timer's
  delay has passed since the last call, the backend has received exactly one write
  since the burst began, and it carries the serialised record
  \<^verbatim>\<open>{ value: partial(data), version: config.version }\<close> for the data of the last call;
  before that it has received none.
\<close>

theorem debounce_burst:
  assumes "calls \<noteq> []" and "within (debounceTime (config h)) calls"
    and "debounceTime (config h) \<le> 2147483647"
    and "storage h = JSONStorage b"
  shows "(fst (last calls) + timer_delay (debounceTime (config h)) \<le> T \<longrightarrow>
           backend_writes (run E h (burst calls @ [(T, Idle)])) =
             backend_writes (run_timers E (fst (hd calls)) h) @
             [BackendSetItem (key h) (JSON_stringify E (stored_record h (snd (last calls))))])
       \<and> (T < fst (last calls) + timer_delay (debounceTime (config h)) \<longrightarrow>
           backend_writes (run E h (burst calls @ [(T, Idle)])) =
             backend_writes (run_timers E (fst (hd calls)) h))"
proof -
  let ?h' = "run E h (burst calls)"
  let ?due = "fst (last calls) + timer_delay (debounceTime (config h))"
  note st = burst_state[OF assms(1-3), of E]
  have run: "run E h (burst calls @ [(T, Idle)]) = run_timers E T ?h'"
    by (simp add: run_append run_def)
  have rec: "stored_record ?h' (snd (last calls)) = stored_record h (snd (last calls))"
    using st by (simp add: stored_record_def)
  have timer: "timeoutId ?h' = Some (?due, snd (last calls))"
    using st by simp
  have sto: "storage ?h' = JSONStorage b"
    using st assms(4) by simp
  show ?thesis
  proof (intro conjI impI)
    assume "?due \<le> T"
    from run_timers_due[OF timer this sto, of E] st rec
    show "backend_writes (run E h (burst calls @ [(T, Idle)])) =
             backend_writes (run_timers E (fst (hd calls)) h) @
             [BackendSetItem (key h) (JSON_stringify E (stored_record h (snd (last calls))))]"
      by (simp add: run)
  next
    assume "T < ?due"
    from run_timers_not_due[OF timer this, of E] st
    show "backend_writes (run E h (burst calls @ [(T, Idle)])) =
             backend_writes (run_timers E (fst (hd calls)) h)"
      by (simp add: run)
  qed
qed

theorem debounce_burst_witness:
  "three_calls \<noteq> []
   \<and> within (debounceTime (config initialised_handler)) three_calls
   \<and> debounceTime (config initialised_handler) \<le> 2147483647
   \<and> storage initialised_handler = JSONStorage (sync_backend None)
   \<and> backend_writes (run example_env initialised_handler (burst three_calls @ [(140, Idle)]))
      = [BackendSetItem ''count'' ''count3'']
   \<and> backend_writes (run example_env initialised_handler (burst three_calls @ [(139, Idle)]))
      = []"
  using debounce_burst
    [where h = initialised_handler and E = example_env and T = 140 and calls = three_calls
       and b = "sync_backend None"]
    debounce_burst
    [where h = initialised_handler and E = example_env and T = 139 and calls = three_calls
       and b = "sync_backend None"]
  by (simp add: initialised_handler_def three_calls_def example_defs initializeStorage_def
        createJSONStorage_def stored_record_def run_timers_def timer_delay_def
        backend_writes_def Let_def)

section \<open>Failing reads\<close>

lemma rejected_read_state:
  assumes "hydrate_method g = ReturnsPromise (Pending Rejects)"
  shows "currentState (store (hydrate_resume t g)) = Null"
    and "hydrate_method (hydrate_resume t g) = ReturnsPromise Fulfilled"
  using hydrate_resume_pending_fields[OF assms] by (simp_all add: getItem_resume_def)

lemma parse_failure_state:
  assumes "hydrate_method h = Prototype"
    and "storage (initializeStorage E h) = JSONStorage b"
    and "backend_getItem b (key h) = Plain (Some s) \<or> backend_getItem b (key h) = Promise (Fulfils (Some s))"
    and "JSON_parse E s = None"
  shows "currentState (store (hydrate_resume t' (snd (hydrate E t h)))) = currentState (store h)"
proof -
  let ?h' = "snd (hydrate E t h)"
  from assms(3) show ?thesis
  proof
    assume "backend_getItem b (key h) = Plain (Some s)"
    then have plain: "storage_getItem E (storage (initializeStorage E h)) (key h) = Plain Null"
      by (simp add: assms(2,4) parseJSON_def)
    have "hydrate_resume t' ?h' = ?h'"
      using hydrate_plain_fields(2)[OF assms(1) plain] by (rule hydrate_resume_other(1))
    then show ?thesis
      using hydrate_plain_fields(3)[OF assms(1) plain] by (simp add: processStoredData_def)
  next
    assume "backend_getItem b (key h) = Promise (Fulfils (Some s))"
    then have later: "storage_getItem E (storage (initializeStorage E h)) (key h) = Promise (Fulfils Null)"
      by (simp add: assms(2,4) parseJSON_def)
    have "currentState (store (hydrate_resume t' ?h')) = getItem_resume ?h' (Fulfils Null)"
      using hydrate_promise_fields(2)[OF assms(1) later] by (rule hydrate_resume_pending_fields(2))
    also have "\<dots> = currentState (store ?h')"
      by (simp add: getItem_resume_def processStoredData_def)
    finally show ?thesis
      using hydrate_promise_fields(3)[OF assms(1) later] by simp
  qed
qed

text \<open>
  C5. A handler over a backend whose \<^verbatim>\<open>getItem\<close> returns a promise that rejects, on a
  container in state \<^verbatim>\<open>{ count: 0, name: "a" }\<close>: \<^verbatim>\<open>hydrate()\<close> returns its promise and
  the promise is fulfilled when the read has settled, but the container's state is then
  \<^verbatim>\<open>null\<close>, not the state it had, and the write that follows stores
  \<^verbatim>\<open>{ value: null, version: 1 }\<close>. (A string that does not parse leaves the state as it
  was: \<open>parse_failure_state\<close>.)
\<close>

theorem rejected_read_sets_null:
  "currentState (store (example_handler (async_backend Rejects)))
     = Obj [(''count'', Num 0), (''name'', Str ''a'')]
   \<and> fst (hydrate example_env 0 (example_handler (async_backend Rejects))) = HydratePromise
   \<and> hydrate_method (run example_env (example_handler (async_backend Rejects))
        [(0, CallHydrate), (1, ReadSettles)]) = ReturnsPromise Fulfilled
   \<and> currentState (store (run example_env (example_handler (async_backend Rejects))
        [(0, CallHydrate), (1, ReadSettles)])) = Null
   \<and> writes (run example_env (example_handler (async_backend Rejects))
        [(0, CallHydrate), (1, ReadSettles), (101, Idle)])
      = [StorageSetItem ''count'' (Obj [(''value'', Null), (''version'', Num 1)])]"
  by (simp add: example_defs handler_defs run_def writes_def)

section \<open>The order of the hydration set and the subscription\<close>

lemma no_persist_listener:
  "PersistListener \<notin> set ls \<Longrightarrow> filter (\<lambda>l. l = PersistListener) ls = []"
  by (induction ls) auto

lemma hydrate_trace_order:
  assumes "hydrate_method h = Prototype"
    and "PersistListener \<notin> set (listeners (store h))"
  shows "(\<forall>d. storage_getItem E (storage (initializeStorage E h)) (key h) = Plain d \<longrightarrow>
            trace (snd (hydrate E t h)) =
              trace h @ [StorageGetItem (key h), StoreSet (processStoredData h (nullish_null d)),
                         Subscribed])
       \<and> (\<forall>out. storage_getItem E (storage (initializeStorage E h)) (key h) = Promise out \<longrightarrow>
            trace (snd (hydrate E t h)) = trace h @ [StorageGetItem (key h), Subscribed]
            \<and> trace (hydrate_resume t' (snd (hydrate E t h))) =
                trace h @ [StorageGetItem (key h), Subscribed,
                           StoreSet (getItem_resume (snd (hydrate E t h)) out),
                           SetItemCalled (getItem_resume (snd (hydrate E t h)) out)])"
proof (intro conjI allI impI)
  fix d
  assume plain: "storage_getItem E (storage (initializeStorage E h)) (key h) = Plain d"
  show "trace (snd (hydrate E t h)) =
      trace h @ [StorageGetItem (key h), StoreSet (processStoredData h (nullish_null d)), Subscribed]"
    by (simp add: hydrate_plain_fields(7)[OF assms(1) plain] no_persist_listener[OF assms(2)])
next
  fix out
  assume later: "storage_getItem E (storage (initializeStorage E h)) (key h) = Promise out"
  show "trace (snd (hydrate E t h)) = trace h @ [StorageGetItem (key h), Subscribed]"
    by (rule hydrate_promise_fields(8)[OF assms(1) later])
  have "filter (\<lambda>l. l = PersistListener) (listeners (store (snd (hydrate E t h)))) = [PersistListener]"
    by (simp add: hydrate_promise_fields(7)[OF assms(1) later])
  then show "trace (hydrate_resume t' (snd (hydrate E t h))) =
      trace h @ [StorageGetItem (key h), Subscribed,
                 StoreSet (getItem_resume (snd (hydrate E t h)) out),
                 SetItemCalled (getItem_resume (snd (hydrate E t h)) out)]"
    by (simp add: hydrate_resume_pending_fields(4)[OF hydrate_promise_fields(2)[OF assms(1) later]]
          hydrate_promise_fields(8)[OF assms(1) later])
qed

text \<open>A \<^verbatim>\<open>set\<close> of the application while the read is pending reaches \<^verbatim>\<open>setItem\<close>
  before the hydration sets the container.\<close>

lemma set_while_pending:
  assumes "hydrate_method h = Prototype"
    and "storage_getItem E (storage (initializeStorage E h)) (key h) = Promise out"
  shows "\<exists>v'. trace (hydrate_resume t'' (IgrisMaster_set t' v (snd (hydrate E t h)))) =
           trace h @ [StorageGetItem (key h), Subscribed, SetItemCalled v, StoreSet v',
                      SetItemCalled v']"
proof -
  let ?g = "snd (hydrate E t h)"
  let ?g' = "IgrisMaster_set t' v ?g"
  have one: "filter (\<lambda>l. l = PersistListener) (listeners (store ?g)) = [PersistListener]"
    by (simp add: hydrate_promise_fields(7)[OF assms])
  have pending: "hydrate_method ?g' = ReturnsPromise (Pending out)"
    by (simp add: IgrisMaster_set_fields hydrate_promise_fields(2)[OF assms])
  have "trace ?g' = trace h @ [StorageGetItem (key h), Subscribed, SetItemCalled v]"
    by (simp add: IgrisMaster_set_fields one hydrate_promise_fields(8)[OF assms])
  then have "trace (hydrate_resume t'' ?g') =
      trace h @ [StorageGetItem (key h), Subscribed, SetItemCalled v,
                 StoreSet (getItem_resume ?g' out), SetItemCalled (getItem_resume ?g' out)]"
    by (simp add: hydrate_resume_pending_fields(4)[OF pending] IgrisMaster_set_fields one)
  then show ?thesis by blast
qed

text \<open>
  C8. On a handler over a backend that answers with a promise, the trace of a hydration
  has the subscription before the set of the container, the hydration's own set
  reaches \<^verbatim>\<open>setItem\<close> through the installed listener, and a \<^verbatim>\<open>set\<close> of the application
  between the call of \<^verbatim>\<open>hydrate()\<close> and the settling of the read reaches \<^verbatim>\<open>setItem\<close>
  before the hydration has set the container. On a backend that answers at once the
  same method sets the container first and subscribes afterwards.
\<close>

theorem async_subscription_precedes_set:
  "trace (run example_env (example_handler (async_backend (Fulfils (Some ''stored''))))
        [(0, CallHydrate), (1, ReadSettles)])
      = [StorageGetItem ''count'', Subscribed,
         StoreSet (Obj [(''count'', Num 5), (''name'', Str ''a'')]),
         SetItemCalled (Obj [(''count'', Num 5), (''name'', Str ''a'')])]
   \<and> \<not> set_before_subscription
       (trace (run example_env (example_handler (async_backend (Fulfils (Some ''stored''))))
          [(0, CallHydrate), (1, ReadSettles)]))
   \<and> trace (run example_env (example_handler (async_backend (Fulfils (Some ''stored''))))
        [(0, CallHydrate), (1, CallSet (Obj [(''count'', Num 7)])), (2, ReadSettles)])
      = [StorageGetItem ''count'', Subscribed, SetItemCalled (Obj [(''count'', Num 7)]),
         StoreSet (Obj [(''count'', Num 5)]), SetItemCalled (Obj [(''count'', Num 5)])]
   \<and> trace (run example_env (example_handler (sync_backend (Some ''stored''))) [(0, CallHydrate)])
      = [StorageGetItem ''count'',
         StoreSet (Obj [(''count'', Num 5), (''name'', Str ''a'')]), Subscribed]
   \<and> set_before_subscription
       (trace (run example_env (example_handler (sync_backend (Some ''stored'')))
          [(0, CallHydrate)]))"
  by (simp add: example_defs handler_defs run_def set_before_subscription_def)

section \<open>Notifications of a hydration\<close>

text \<open>
  C10. A hydration that completes, at once or when the pending read settles, calls
  \<^verbatim>\<open>set\<close> of the container with the value \<^verbatim>\<open>getItem\<close> produced, and that call
  notifies every listener subscribed at that moment, in order, with that value. When
  nothing was stored the value is the container's state as it was.
\<close>

theorem hydration_notifies_listeners:
  assumes "hydrate_method h = Prototype"
  shows "(\<forall>d. storage_getItem E (storage (initializeStorage E h)) (key h) = Plain d \<longrightarrow>
            StoreSet (processStoredData h (nullish_null d)) \<in> set (trace (snd (hydrate E t h)))
            \<and> notified (store (snd (hydrate E t h))) =
                notified (store h) @
                map (\<lambda>l. (l, processStoredData h (nullish_null d))) (listeners (store h))
            \<and> (falsy (nullish_null d) \<longrightarrow> processStoredData h (nullish_null d) = currentState (store h)))
       \<and> (\<forall>g out. hydrate_method g = ReturnsPromise (Pending out) \<longrightarrow>
            StoreSet (getItem_resume g out) \<in> set (trace (hydrate_resume t' g))
            \<and> notified (store (hydrate_resume t' g)) =
                notified (store g) @ map (\<lambda>l. (l, getItem_resume g out)) (listeners (store g))
            \<and> (out = Fulfils Null \<longrightarrow> getItem_resume g out = currentState (store g)))"
proof (intro conjI allI impI)
  fix d
  assume plain: "storage_getItem E (storage (initializeStorage E h)) (key h) = Plain d"
  show "StoreSet (processStoredData h (nullish_null d)) \<in> set (trace (snd (hydrate E t h)))"
    by (simp add: hydrate_plain_fields(7)[OF assms plain])
  show "notified (store (snd (hydrate E t h))) =
      notified (store h) @ map (\<lambda>l. (l, processStoredData h (nullish_null d))) (listeners (store h))"
    by (rule hydrate_plain_fields(6)[OF assms plain])
  assume "falsy (nullish_null d)"
  then show "processStoredData h (nullish_null d) = currentState (store h)"
    by (simp add: processStoredData_def)
next
  fix g :: persistHandler and out
  assume pending: "hydrate_method g = ReturnsPromise (Pending out)"
  show "StoreSet (getItem_resume g out) \<in> set (trace (hydrate_resume t' g))"
    by (simp add: hydrate_resume_pending_fields(4)[OF pending])
  show "notified (store (hydrate_resume t' g)) =
      notified (store g) @ map (\<lambda>l. (l, getItem_resume g out)) (listeners (store g))"
    by (rule hydrate_resume_pending_fields(3)[OF pending])
  assume "out = Fulfils Null"
  then show "getItem_resume g out = currentState (store g)"
    by (simp add: getItem_resume_def processStoredData_def)
qed

theorem hydration_notifies_listeners_witness:
  "hydrate_method (example_handler (sync_backend None)) = Prototype
   \<and> storage_getItem example_env
        (storage (initializeStorage example_env (example_handler (sync_backend None))))
        (key (example_handler (sync_backend None)))
      = Plain Null
   \<and> falsy (nullish_null Null)
   \<and> notified (store (snd (hydrate example_env 0 (example_handler (sync_backend None)))))
      = [(UserListener 0, Obj [(''count'', Num 0), (''name'', Str ''a'')])]
   \<and> hydrate_method (snd (hydrate example_env 0 (example_handler (async_backend (Fulfils None)))))
      = ReturnsPromise (Pending (Fulfils Null))
   \<and> notified (store (hydrate_resume 1
        (snd (hydrate example_env 0 (example_handler (async_backend (Fulfils None)))))))
      = [(UserListener 0, Obj [(''count'', Num 0), (''name'', Str ''a'')]),
         (PersistListener, Obj [(''count'', Num 0), (''name'', Str ''a'')])]"
  using hydration_notifies_listeners
    [where h = "example_handler (sync_backend None)" and E = example_env and t = 0 and t' = 1]
  by (simp add: example_defs handler_defs)

section \<open>The storage adapter\<close>

text \<open>
  C9, as stated, fails for \<^verbatim>\<open>removeItem\<close>: on a backend whose \<^verbatim>\<open>removeItem\<close> returns
  at once, the adapter's \<^verbatim>\<open>removeItem\<close> returns a promise.
\<close>

theorem removeItem_shape_counterexample:
  "backend_removeItem (sync_backend None) ''count'' = Plain ()
   \<and> storage_removeItem (JSONStorage (sync_backend None)) ''count'' = Promise (Fulfils ())"
  by (simp add: sync_backend_def)

text \<open>
  C9, amended. \<^verbatim>\<open>getItem\<close> of the adapter returns a plain value when the backend does,
  and when the backend returns a promise it returns a promise that is fulfilled with the
  value a backend answering at once with the same string would give (and rejects when
  the backend's promise rejects). \<^verbatim>\<open>removeItem\<close> passes the call to the backend and
  always returns a promise: fulfilled when the backend returned at once, settling as the
  backend's promise otherwise.
\<close>

theorem adapter_shapes:
  "(\<forall>s. backend_getItem b k = Plain s \<longrightarrow>
        storage_getItem E (JSONStorage b) k = Plain (parseJSON E s))
   \<and> (\<forall>s b'. backend_getItem b k = Promise (Fulfils s) \<and> backend_getItem b' k = Plain s \<longrightarrow>
        (\<exists>v. storage_getItem E (JSONStorage b) k = Promise (Fulfils v)
           \<and> storage_getItem E (JSONStorage b') k = Plain v))
   \<and> (backend_getItem b k = Promise Rejects \<longrightarrow>
        storage_getItem E (JSONStorage b) k = Promise Rejects)
   \<and> (\<forall>u. backend_removeItem b k = Plain u \<longrightarrow>
        storage_removeItem (JSONStorage b) k = Promise (Fulfils ()))
   \<and> (\<forall>r. backend_removeItem b k = Promise r \<longrightarrow>
        storage_removeItem (JSONStorage b) k = Promise r)"
  by simp

theorem adapter_shapes_witness:
  "backend_getItem (sync_backend (Some ''stored'')) ''count'' = Plain (Some ''stored'')
   \<and> backend_getItem (async_backend (Fulfils (Some ''stored''))) ''count'' = Promise (Fulfils (Some ''stored''))
   \<and> storage_getItem example_env (JSONStorage (sync_backend (Some ''stored''))) ''count''
      = Plain (Obj [(''value'', Obj [(''count'', Num 5)])])
   \<and> storage_getItem example_env (JSONStorage (async_backend (Fulfils (Some ''stored'')))) ''count''
      = Promise (Fulfils (Obj [(''value'', Obj [(''count'', Num 5)])]))
   \<and> backend_removeItem (async_backend (Fulfils (Some ''stored''))) ''count'' = Promise (Fulfils ())
   \<and> storage_removeItem (JSONStorage (async_backend (Fulfils (Some ''stored'')))) ''count''
      = Promise (Fulfils ())"
  using adapter_shapes
    [where b = "async_backend (Fulfils (Some ''stored''))" and k = "''count''" and E = example_env]
  by (simp add: sync_backend_def async_backend_def example_env_def parseJSON_def)

section \<open>The coordinator joins the hydrations\<close>

lemma hydrate_handle:
  "cached_handle (hydrate_method (snd (hydrate E t h))) = Some (fst (hydrate E t h))"
proof (cases "hydrate_method h = Prototype")
  case True
  then show ?thesis by (rule hydrate_first(1))
next
  case False
  then show ?thesis
    by (cases "hydrate_method h") (simp_all add: hydrate_def)
qed

lemma hydrate_keeps_handle:
  "cached_handle (hydrate_method h) = Some r \<Longrightarrow> hydrate E t h = (r, h)"
  by (cases "hydrate_method h") (simp_all add: hydrate_def)

lemma handle_at_upd:
  "handle_at (H(r := c)) r' = (if r' = r then (case c of Persisted h \<Rightarrow> cached_handle (hydrate_method h) | Unpersisted st \<Rightarrow> None) else handle_at H r')"
  by (simp add: handle_at_def)

lemma handle_at_None: "\<not> has_handler (H r) \<Longrightarrow> handle_at H r = None"
  by (cases "H r") (simp_all add: handle_at_def)

lemma hydrate_stores_inv:
  "hydrate_stores E t cfg rs (ps, H) = (ps', H') \<Longrightarrow>
     (\<forall>r. handle_at H r \<noteq> None \<longrightarrow> handle_at H' r = handle_at H r)
   \<and> (\<forall>r. has_handler (H' r) = has_handler (H r))
   \<and> (\<forall>r. \<not> has_handler (H r) \<longrightarrow> H' r = H r)
   \<and> (\<forall>r\<in>set rs. has_handler (H r) \<longrightarrow> handle_at H' r \<noteq> None)
   \<and> set ps' = set ps \<union> {r \<in> set rs. handle_at H' r = Some HydratePromise}"
proof (induction rs arbitrary: ps H)
  case Nil
  then show ?case by auto
next
  case (Cons r rs)
  show ?case
  proof (cases "H r")
    case (Unpersisted st)
    then have rec: "hydrate_stores E t cfg rs (ps, H) = (ps', H')"
      using Cons.prems by simp
    note IH = Cons.IH[OF rec]
    have "\<not> has_handler (H r)" by (simp add: Unpersisted)
    then have "handle_at H' r = None"
      using IH by (simp add: handle_at_None)
    then show ?thesis
      using IH \<open>\<not> has_handler (H r)\<close> by auto
  next
    case (Persisted h)
    define h1 where "h1 = (if storage_cfg (config h) = None \<and> cfg \<noteq> None
                     then h\<lparr>config := (config h)\<lparr>storage_cfg := cfg\<rparr>\<rparr> else h)"
    define res where "res = fst (hydrate E t h1)"
    define h2 where "h2 = snd (hydrate E t h1)"
    define H1 where "H1 = H(r := Persisted h2)"
    define ps1 where "ps1 = (if res = HydratePromise then ps @ [r] else ps)"
    have rec: "hydrate_stores E t cfg rs (ps1, H1) = (ps', H')"
      using Cons.prems
      by (simp add: Persisted Let_def h1_def res_def h2_def H1_def ps1_def split_beta)
    note IH = Cons.IH[OF rec]
    have m1: "hydrate_method h1 = hydrate_method h"
      by (simp add: h1_def)
    have at_r: "handle_at H1 r = Some res"
      by (simp add: H1_def handle_at_def h2_def res_def hydrate_handle)
    have other: "\<And>r'. r' \<noteq> r \<Longrightarrow> H1 r' = H r'"
      by (simp add: H1_def)
    have other_handle: "\<And>r'. r' \<noteq> r \<Longrightarrow> handle_at H1 r' = handle_at H r'"
      by (simp add: H1_def handle_at_def)
    have keep: "handle_at H r \<noteq> None \<Longrightarrow> handle_at H1 r = handle_at H r"
    proof -
      assume "handle_at H r \<noteq> None"
      then obtain x where x: "cached_handle (hydrate_method h1) = Some x"
        by (auto simp: handle_at_def Persisted m1)
      then have "hydrate E t h1 = (x, h1)" by (rule hydrate_keeps_handle)
      then have "res = x" by (simp add: res_def)
      moreover have "handle_at H r = Some x"
        using x by (simp add: handle_at_def Persisted m1)
      ultimately show ?thesis
        using at_r by simp
    qed
    have a: "\<forall>r'. handle_at H r' \<noteq> None \<longrightarrow> handle_at H' r' = handle_at H r'"
    proof (intro allI impI)
      fix r'
      assume nn: "handle_at H r' \<noteq> None"
      have "handle_at H1 r' = handle_at H r'"
        using nn keep other_handle by (cases "r' = r") simp_all
      then show "handle_at H' r' = handle_at H r'"
        using IH nn by simp
    qed
    have hh1: "\<And>r'. has_handler (H1 r') = has_handler (H r')"
      by (simp add: H1_def Persisted)
    have b: "\<forall>r'. has_handler (H' r') = has_handler (H r')"
      using IH hh1 by simp
    have c: "\<forall>r'. \<not> has_handler (H r') \<longrightarrow> H' r' = H r'"
    proof (intro allI impI)
      fix r'
      assume nh: "\<not> has_handler (H r')"
      then have "r' \<noteq> r" using Persisted by auto
      then show "H' r' = H r'"
        using IH nh hh1 other by simp
    qed
    have at_r': "handle_at H' r = Some res"
      using IH at_r by simp
    have d: "\<forall>r'\<in>set (r # rs). has_handler (H r') \<longrightarrow> handle_at H' r' \<noteq> None"
      using IH at_r' hh1 by auto
    have e: "set ps' = set ps \<union> {r' \<in> set (r # rs). handle_at H' r' = Some HydratePromise}"
    proof -
      have "set ps' = set ps1 \<union> {r' \<in> set rs. handle_at H' r' = Some HydratePromise}"
        using IH by simp
      moreover have "set ps1 = set ps \<union> (if res = HydratePromise then {r} else {})"
        by (simp add: ps1_def)
      ultimately show ?thesis
        using at_r' by auto
    qed
    from a b c d e show ?thesis by blast
  qed
qed

text \<open>
  C6. An invocation of the coordinator leaves every container without a persist handler
  as it is. It returns \<^verbatim>\<open>undefined\<close> exactly when every listed container with a handler
  has \<^verbatim>\<open>undefined\<close> as the result of its \<^verbatim>\<open>hydrate()\<close>. Otherwise it returns one promise
  that joins the hydration promises of exactly the listed containers whose
  \<^verbatim>\<open>hydrate()\<close> returned a promise, and that is fulfilled exactly when all of these are.
\<close>

theorem setupHydrator_join:
  "(\<forall>r. \<not> has_handler (H r) \<longrightarrow> snd (setupHydrator E t stores cfg H) r = H r)
   \<and> (fst (setupHydrator E t stores cfg H) = None \<longleftrightarrow>
        (\<forall>r\<in>set stores. has_handler (H r) \<longrightarrow>
           handle_at (snd (setupHydrator E t stores cfg H)) r = Some Void))
   \<and> (\<forall>ps. fst (setupHydrator E t stores cfg H) = Some ps \<longrightarrow>
        set ps = {r \<in> set stores.
                    handle_at (snd (setupHydrator E t stores cfg H)) r = Some HydratePromise}
        \<and> (\<forall>H''. join_fulfilled H'' ps \<longleftrightarrow>
               (\<forall>r\<in>set stores.
                  handle_at (snd (setupHydrator E t stores cfg H)) r = Some HydratePromise \<longrightarrow>
                  hydration_fulfilled H'' r)))"
proof -
  obtain ps' H' where loop: "hydrate_stores E t cfg stores ([], H) = (ps', H')"
    by (cases "hydrate_stores E t cfg stores ([], H)")
  note inv = hydrate_stores_inv[OF loop]
  have res: "fst (setupHydrator E t stores cfg H) = (if ps' = [] then None else Some ps')"
    and heap: "snd (setupHydrator E t stores cfg H) = H'"
    by (simp_all add: setupHydrator_def loop)
  have promises: "set ps' = {r \<in> set stores. handle_at H' r = Some HydratePromise}"
    using inv by simp
  have handled: "\<forall>r\<in>set stores. has_handler (H r) \<longrightarrow> handle_at H' r \<noteq> None"
    using inv by simp
  have none: "\<forall>r\<in>set stores. \<not> has_handler (H r) \<longrightarrow> handle_at H' r = None"
    using inv by (simp add: handle_at_None)
  have "ps' = [] \<longleftrightarrow> (\<forall>r\<in>set stores. has_handler (H r) \<longrightarrow> handle_at H' r = Some Void)"
  proof
    assume "ps' = []"
    then have no: "\<forall>r\<in>set stores. handle_at H' r \<noteq> Some HydratePromise"
      using promises by auto
    show "\<forall>r\<in>set stores. has_handler (H r) \<longrightarrow> handle_at H' r = Some Void"
    proof (intro ballI impI)
      fix r
      assume r: "r \<in> set stores" and "has_handler (H r)"
      then obtain x where "handle_at H' r = Some x" using handled by auto
      then show "handle_at H' r = Some Void"
        using no r by (cases x) auto
    qed
  next
    assume void: "\<forall>r\<in>set stores. has_handler (H r) \<longrightarrow> handle_at H' r = Some Void"
    have "handle_at H' r \<noteq> Some HydratePromise" if "r \<in> set stores" for r
      using that void none by (cases "has_handler (H r)") auto
    then have "{r \<in> set stores. handle_at H' r = Some HydratePromise} = {}"
      by auto
    then have "set ps' = {}"
      using promises by simp
    then show "ps' = []"
      by simp
  qed
  moreover have "\<forall>H''. join_fulfilled H'' ps' \<longleftrightarrow>
      (\<forall>r\<in>set stores. handle_at H' r = Some HydratePromise \<longrightarrow> hydration_fulfilled H'' r)"
    using promises by (auto simp: join_fulfilled_def list_all_iff)
  ultimately show ?thesis
    using inv promises by (simp add: res heap)
qed

theorem setupHydrator_join_witness:
  "\<not> has_handler (example_heap 0)
   \<and> snd (setupHydrator example_env 0 [0, 1, 2] None example_heap) 0 = Unpersisted example_store
   \<and> fst (setupHydrator example_env 0 [0, 1, 2] None example_heap) = Some [2]
   \<and> handle_at (snd (setupHydrator example_env 0 [0, 1, 2] None example_heap)) 1 = Some Void
   \<and> handle_at (snd (setupHydrator example_env 0 [0, 1, 2] None example_heap)) 2 = Some HydratePromise"
  using setupHydrator_join
    [where E = example_env and t = 0 and stores = "[0, 1, 2]" and cfg = None and H = example_heap]
  by (simp add: setupHydrator_def example_heap_def example_defs handler_defs handle_at_def)

section \<open>The gate opens once\<close>

















lemma promiseRef_step: "promiseRef g \<noteq> RefUndefined \<Longrightarrow> promiseRef (gate_step a g e) \<noteq> RefUndefined"
  by (cases e)
     (auto simp: render_def getSnapshot_def subscribe_def run_queued_def settle_def Let_def
        split: option.splits)

lemma promiseRef_run: "promiseRef g \<noteq> RefUndefined \<Longrightarrow> promiseRef (gate_run a g evs) \<noteq> RefUndefined"
  by (induction evs arbitrary: g) (simp_all add: gate_run_def promiseRef_step)














end
